theory Spec2Isabelle
  imports Main
begin

section \<open>Values, errors and the process state\<close>

text \<open>
  Numbers of the program (block numbers, slots, timestamps in epoch seconds, retry
  counts, milliseconds) are modelled as \<open>int\<close>. A JavaScript number is a double, so
  the model is exact as long as every number that occurs, the intermediate results
  such as \<open>startBlock + endBlock\<close> included, is an integer of magnitude at most
  \<open>2^53\<close> (\<open>exact\<close> below); beyond that the arithmetic of the program rounds and
  that of the model does not. The statements about the EVM search and about the
  out-of-range message carry these bounds as hypotheses. \<open>NaN\<close>, the infinities and
  fractional values are outside the model. \<open>Math.floor((a + b) / 2)\<close> is
  \<open>(a + b) div 2\<close>, which rounds towards minus infinity as \<open>Math.floor\<close> does.
\<close>

definition MAX_SEARCH_OFFSET :: int where
  "MAX_SEARCH_OFFSET = 100"

definition TIME_DIFFERENCE_THRESHOLD :: int where
  "TIME_DIFFERENCE_THRESHOLD = 60"

definition MAX_SAFE_INTEGER :: int where
  "MAX_SAFE_INTEGER = 9007199254740991"

text \<open>
  An integer of magnitude at most \<open>2^53\<close>. Up to there a JavaScript number holds
  every integer, a sum or difference that stays in the range is computed exactly, and
  the number is printed with all its digits.
\<close>

definition exact :: "int \<Rightarrow> bool" where
  "exact x \<longleftrightarrow> \<bar>x\<bar> \<le> MAX_SAFE_INTEGER + 1"

text \<open>
  A thrown value: an \<open>Error\<close> object with its \<open>name\<close> and \<open>message\<close>.
  \<open>new Error(m)\<close> is \<open>Exn ''Error'' m\<close>; a failing \<open>fetch\<close> throws some other
  \<open>Exn name message\<close> (for instance a \<open>TypeError\<close>).
\<close>

datatype exn = Exn (exn_name: string) (exn_message: string)

definition Error :: "string \<Rightarrow> exn" where
  "Error m = Exn ''Error'' m"

text \<open>\<open>String(error)\<close>, that is \<open>Error.prototype.toString\<close>.\<close>

definition String :: "exn \<Rightarrow> string" where
  "String e =
     (if exn_name e = [] then exn_message e
      else if exn_message e = [] then exn_name e
      else exn_name e @ '': '' @ exn_message e)"

text \<open>
  The requests the program sends to the two JSON-RPC endpoints, and \<open>Invoke\<close> for a call
  of an operation supplied by a caller of \<open>retry\<close>.
\<close>

datatype call =
    EthBlockNumber
  | EthGetBlockByNumber int
  | GetSlot
  | GetBlockTime int
  | Invoke

text \<open>Which of the two module-level caches a call of \<open>getCachedData\<close> was given.\<close>

datatype cache_ref = SlotTimeCache | BlockTimestampCache

text \<open>
  The state of the process and of what it has done to the outside so far:
  the two caches of \<open>block-fetcher.ts\<close>, the cache of \<open>api.ts\<close>, the external
  calls made, in order, and the milliseconds spent in \<open>delay\<close>.
\<close>

record world =
  slotTimeCache :: "int \<rightharpoonup> int"
  blockTimestampCache :: "int \<rightharpoonup> int"
  routeCache :: "string \<rightharpoonup> (string \<rightharpoonup> int)"
  trace :: "call list"
  clock :: int

text \<open>
  An \<open>async\<close> function: from the state to either the thrown value (\<open>Inl\<close>) or the
  returned value (\<open>Inr\<close>), and the state it leaves. The model is sequential: one
  request at a time.
\<close>

type_synonym 'a io = "world \<Rightarrow> (exn + 'a) \<times> world"

text \<open>
  An external operation answers as a function of how many external calls were made
  before it: \<open>f n\<close> is the outcome when it is the call number \<open>n\<close> (from 0). Any
  deterministic sequence of answers, failures included, is of this form.
\<close>

definition invoke :: "call \<Rightarrow> (nat \<Rightarrow> exn + 'a) \<Rightarrow> 'a io" where
  "invoke c f w = (f (length (trace w)), w\<lparr>trace := trace w @ [c]\<rparr>)"

definition delay :: "int \<Rightarrow> world \<Rightarrow> world" where
  "delay ms w = w\<lparr>clock := clock w + ms\<rparr>"

section \<open>Retry\<close>

text \<open>
  \<^verbatim>\<open>
  for (let attempt = 0; attempt < retries; attempt++) {
    try { return await fn(); }
    catch (error) {
      if (attempt >= retries - 1)
        throw new Error(`Max retries reached: ${String(error)}`);
      await delay(delayMs);
    }
  }
  throw new Error("Max retries reached without success.");
  \<close>
\<close>

function retry_loop :: "'a io \<Rightarrow> int \<Rightarrow> int \<Rightarrow> int \<Rightarrow> 'a io" where
  "retry_loop fn retries delayMs attempt w =
     (if attempt < retries then
        (case fn w of
           (Inr v, w') \<Rightarrow> (Inr v, w')
         | (Inl error, w') \<Rightarrow>
             if attempt \<ge> retries - 1
             then (Inl (Error (''Max retries reached: '' @ String error)), w')
             else retry_loop fn retries delayMs (attempt + 1) (delay delayMs w'))
      else (Inl (Error ''Max retries reached without success.''), w))"
  by pat_completeness auto
termination
  by (relation "measure (\<lambda>(fn, retries, delayMs, attempt, w). nat (retries - attempt))") auto

declare retry_loop.simps [simp del]

definition retry :: "'a io \<Rightarrow> int \<Rightarrow> int \<Rightarrow> 'a io" where
  "retry fn retries delayMs = retry_loop fn retries delayMs 0"

text \<open>The default arguments: \<open>retries = 3\<close>, \<open>delayMs = 1000\<close>.\<close>

definition retry_default :: "'a io \<Rightarrow> 'a io" where
  "retry_default fn = retry fn 3 1000"

section \<open>The point caches\<close>

definition cache_of :: "cache_ref \<Rightarrow> world \<Rightarrow> (int \<rightharpoonup> int)" where
  "cache_of c w = (case c of SlotTimeCache \<Rightarrow> slotTimeCache w | BlockTimestampCache \<Rightarrow> blockTimestampCache w)"

definition cache_store :: "cache_ref \<Rightarrow> int \<Rightarrow> int \<Rightarrow> world \<Rightarrow> world" where
  "cache_store c key data w =
     (case c of
        SlotTimeCache \<Rightarrow> w\<lparr>slotTimeCache := (slotTimeCache w)(key \<mapsto> data)\<rparr>
      | BlockTimestampCache \<Rightarrow> w\<lparr>blockTimestampCache := (blockTimestampCache w)(key \<mapsto> data)\<rparr>)"

text \<open>
  The function handed to \<open>retry\<close> by \<open>getCachedData\<close>:
  \<^verbatim>\<open>
  if (key in cache) return cache[key];
  const data = await fetchFunc();
  cache[key] = data;
  return data;
  \<close>
\<close>

definition cached_attempt :: "cache_ref \<Rightarrow> int \<Rightarrow> int io \<Rightarrow> int io" where
  "cached_attempt c key fetchFunc w =
     (case cache_of c w key of
        Some v \<Rightarrow> (Inr v, w)
      | None \<Rightarrow>
          (case fetchFunc w of
             (Inl e, w') \<Rightarrow> (Inl e, w')
           | (Inr data, w') \<Rightarrow> (Inr data, cache_store c key data w')))"

definition getCachedData :: "cache_ref \<Rightarrow> int \<Rightarrow> int io \<Rightarrow> int io" where
  "getCachedData c key fetchFunc = retry_default (cached_attempt c key fetchFunc)"

section \<open>Numbers in messages\<close>

text \<open>
  A number inside a template literal: its decimal digits, with a minus sign below
  zero. This is what the program prints for an \<open>exact\<close> integer; a larger number is
  printed with the fewest digits that identify the double, and from \<open>10^21\<close> on in
  exponent form, which \<open>number_toString\<close> does not model.
\<close>

fun string_of_nat :: "nat \<Rightarrow> string" where
  "string_of_nat n =
     (if n < 10 then [''0123456789'' ! n]
      else string_of_nat (n div 10) @ [''0123456789'' ! (n mod 10)])"

declare string_of_nat.simps [simp del]

definition number_toString :: "int \<Rightarrow> string" where
  "number_toString i = (if i < 0 then ''-'' @ string_of_nat (nat (- i)) else string_of_nat (nat i))"

section \<open>The remote point sources\<close>

text \<open>
  What the two JSON-RPC endpoints answer. Each field gives the outcome of a request as
  a function of the number of external calls made before it: \<open>Inl\<close> when \<open>fetch\<close> or
  \<open>response.json()\<close> throws, otherwise the \<open>result\<close> field of the response, already
  read as a number (\<open>parseInt(_, 16)\<close> for the EVM endpoint). \<open>None\<close> is a \<open>null\<close>
  result: no block for that number, or a skipped slot.
\<close>

record rpc =
  eth_blockNumber :: "nat \<Rightarrow> exn + int"
  eth_getBlockByNumber :: "nat \<Rightarrow> int \<Rightarrow> exn + int option"
  getSlot :: "nat \<Rightarrow> exn + int"
  getBlockTime :: "nat \<Rightarrow> int \<Rightarrow> exn + int option"

subsection \<open>EVM\<close>

text \<open>The function \<open>getBlockTimestamp\<close> hands to \<open>getCachedData\<close>.\<close>

definition fetchBlockTimestamp :: "rpc \<Rightarrow> int \<Rightarrow> int io" where
  "fetchBlockTimestamp r blockNumber w =
     (case invoke (EthGetBlockByNumber blockNumber) (\<lambda>n. eth_getBlockByNumber r n blockNumber) w of
        (Inl e, w') \<Rightarrow> (Inl e, w')
      | (Inr None, w') \<Rightarrow>
          (Inl (Error (''No data found for block number: '' @ number_toString blockNumber)), w')
      | (Inr (Some t), w') \<Rightarrow> (Inr t, w'))"

definition getBlockTimestamp :: "rpc \<Rightarrow> int \<Rightarrow> int io" where
  "getBlockTimestamp r blockNumber =
     getCachedData BlockTimestampCache blockNumber (fetchBlockTimestamp r blockNumber)"

definition getLatestBlockNumber :: "rpc \<Rightarrow> int io" where
  "getLatestBlockNumber r = invoke EthBlockNumber (eth_blockNumber r)"

text \<open>
  The \<open>while (startBlock <= endBlock)\<close> loop of \<open>getEVMBlockByTimestamp\<close>. The sum
  \<open>startBlock + endBlock\<close> is at most twice the latest block number and
  \<open>middleBlock + 1\<close> at most one more than it: the loop of the program computes what
  this one does when twice the latest block number is \<open>exact\<close> and the timestamps
  and the target are. Beyond that the program rounds (with the latest block number
  \<open>2^53\<close>, \<open>middleBlock + 1\<close> can be \<open>middleBlock\<close> again).
\<close>

function evm_loop :: "rpc \<Rightarrow> int \<Rightarrow> int \<Rightarrow> int \<Rightarrow> int \<Rightarrow> int \<Rightarrow> int io" where
  "evm_loop r timestamp startBlock endBlock closestBlock closestTimeDifference w =
     (if startBlock \<le> endBlock then
        (let middleBlock = (startBlock + endBlock) div 2 in
         case getBlockTimestamp r middleBlock w of
           (Inl e, w') \<Rightarrow> (Inl e, w')
         | (Inr middleBlockTime, w') \<Rightarrow>
             (let timeDifference = \<bar>middleBlockTime - timestamp\<bar>;
                  closestBlock' =
                    (if timeDifference < closestTimeDifference then middleBlock else closestBlock);
                  closestTimeDifference' =
                    (if timeDifference < closestTimeDifference then timeDifference
                     else closestTimeDifference)
              in if middleBlockTime = timestamp then (Inr middleBlock, w')
                 else if middleBlockTime < timestamp
                 then evm_loop r timestamp (middleBlock + 1) endBlock
                        closestBlock' closestTimeDifference' w'
                 else evm_loop r timestamp startBlock (middleBlock - 1)
                        closestBlock' closestTimeDifference' w'))
      else (Inr closestBlock, w))"
  by pat_completeness auto
termination
  by (relation "measure (\<lambda>(r, t, startBlock, endBlock, cb, cd, w). nat (endBlock - startBlock + 1))")
    auto

declare evm_loop.simps [simp del]

definition getEVMBlockByTimestamp :: "rpc \<Rightarrow> int \<Rightarrow> int io" where
  "getEVMBlockByTimestamp r timestamp w =
     (case getLatestBlockNumber r w of
        (Inl e, w') \<Rightarrow> (Inl e, w')
      | (Inr latestBlock, w') \<Rightarrow> evm_loop r timestamp 0 latestBlock 0 MAX_SAFE_INTEGER w')"

subsection \<open>Solana\<close>

definition getLatestSlot :: "rpc \<Rightarrow> int io" where
  "getLatestSlot r = invoke GetSlot (getSlot r)"

definition getSlotTime :: "rpc \<Rightarrow> int \<Rightarrow> int io" where
  "getSlotTime r slot w =
     (case invoke (GetBlockTime slot) (\<lambda>n. getBlockTime r n slot) w of
        (Inl e, w') \<Rightarrow> (Inl e, w')
      | (Inr None, w') \<Rightarrow>
          (Inl (Error (''No timestamp found for slot '' @ number_toString slot)), w')
      | (Inr (Some t), w') \<Rightarrow> (Inr t, w'))"

definition getCachedSlotTime :: "rpc \<Rightarrow> int \<Rightarrow> int io" where
  "getCachedSlotTime r slot = getCachedData SlotTimeCache slot (getSlotTime r slot)"

text \<open>The \<open>for (let offset = 1; offset <= MAX_SEARCH_OFFSET; offset++)\<close> loop of
  \<open>refineSlotSearchSolana\<close>.\<close>

function refine_loop :: "rpc \<Rightarrow> int \<Rightarrow> int \<Rightarrow> int \<Rightarrow> int \<Rightarrow> int \<Rightarrow> int io" where
  "refine_loop r initialSlot targetTimestamp offset closestSlot closestTimeDifference w =
     (if offset \<le> MAX_SEARCH_OFFSET then
        (let forwardSlot = initialSlot + offset;
             backwardSlot = initialSlot - offset
         in case getCachedSlotTime r forwardSlot w of
           (Inl e, w1) \<Rightarrow> (Inl e, w1)
         | (Inr forwardTime, w1) \<Rightarrow>
             (let forwardDifference = \<bar>forwardTime - targetTimestamp\<bar>;
                  closestSlot1 =
                    (if forwardDifference < closestTimeDifference then forwardSlot else closestSlot);
                  closestTimeDifference1 =
                    (if forwardDifference < closestTimeDifference then forwardDifference
                     else closestTimeDifference)
              in case getCachedSlotTime r backwardSlot w1 of
                (Inl e, w2) \<Rightarrow> (Inl e, w2)
              | (Inr backwardTime, w2) \<Rightarrow>
                  (let backwardDifference = \<bar>backwardTime - targetTimestamp\<bar>;
                       closestSlot2 =
                         (if backwardDifference < closestTimeDifference1 then backwardSlot
                          else closestSlot1);
                       closestTimeDifference2 =
                         (if backwardDifference < closestTimeDifference1 then backwardDifference
                          else closestTimeDifference1)
                   in if closestTimeDifference2 \<le> TIME_DIFFERENCE_THRESHOLD
                      then (Inr closestSlot2, w2)
                      else refine_loop r initialSlot targetTimestamp (offset + 1)
                             closestSlot2 closestTimeDifference2 w2)))
      else (Inr closestSlot, w))"
  by pat_completeness auto
termination
  by (relation "measure (\<lambda>(r, i, t, offset, cs, cd, w). nat (MAX_SEARCH_OFFSET + 1 - offset))")
    auto

declare refine_loop.simps [simp del]

definition refineSlotSearchSolana :: "rpc \<Rightarrow> int \<Rightarrow> int \<Rightarrow> int io" where
  "refineSlotSearchSolana r initialSlot targetTimestamp w =
     (case getCachedSlotTime r initialSlot w of
        (Inl e, w') \<Rightarrow> (Inl e, w')
      | (Inr initialTime, w') \<Rightarrow>
          refine_loop r initialSlot targetTimestamp 1 initialSlot
            \<bar>initialTime - targetTimestamp\<bar> w')"

text \<open>The \<open>while (startSlot <= endSlot)\<close> loop of \<open>getSolanaBlockByTimestamp\<close>, which
  hands its closest slot to \<open>refineSlotSearchSolana\<close> when it ends without an exact hit.\<close>

function solana_loop :: "rpc \<Rightarrow> int \<Rightarrow> int \<Rightarrow> int \<Rightarrow> int \<Rightarrow> int \<Rightarrow> int io" where
  "solana_loop r timestamp startSlot endSlot closestSlot closestTimeDifference w =
     (if startSlot \<le> endSlot then
        (let middleSlot = (startSlot + endSlot) div 2 in
         case getCachedSlotTime r middleSlot w of
           (Inl e, w') \<Rightarrow> (Inl e, w')
         | (Inr middleSlotTime, w') \<Rightarrow>
             (let timeDifference = \<bar>middleSlotTime - timestamp\<bar>;
                  closestSlot' =
                    (if timeDifference < closestTimeDifference then middleSlot else closestSlot);
                  closestTimeDifference' =
                    (if timeDifference < closestTimeDifference then timeDifference
                     else closestTimeDifference)
              in if middleSlotTime = timestamp then (Inr middleSlot, w')
                 else if middleSlotTime < timestamp
                 then solana_loop r timestamp (middleSlot + 1) endSlot
                        closestSlot' closestTimeDifference' w'
                 else solana_loop r timestamp startSlot (middleSlot - 1)
                        closestSlot' closestTimeDifference' w'))
      else refineSlotSearchSolana r closestSlot timestamp w)"
  by pat_completeness auto
termination
  by (relation "measure (\<lambda>(r, t, startSlot, endSlot, cs, cd, w). nat (endSlot - startSlot + 1))")
    auto

declare solana_loop.simps [simp del]

definition getSolanaBlockByTimestamp :: "rpc \<Rightarrow> int \<Rightarrow> int io" where
  "getSolanaBlockByTimestamp r timestamp w =
     (case getLatestSlot r w of
        (Inl e, w1) \<Rightarrow> (Inl e, w1)
      | (Inr latestSlot, w1) \<Rightarrow>
          (case getCachedSlotTime r 0 w1 of
             (Inl e, w2) \<Rightarrow> (Inl e, w2)
           | (Inr genesisTimestamp, w2) \<Rightarrow>
               if timestamp \<le> genesisTimestamp then (Inr 0, w2)
               else solana_loop r timestamp 0 latestSlot 0 MAX_SAFE_INTEGER w2))"

subsection \<open>Block identifier to timestamp\<close>

definition getTimestampByBlockNumber :: "rpc \<Rightarrow> int \<Rightarrow> int io" where
  "getTimestampByBlockNumber r blockNumber = getBlockTimestamp r blockNumber"

definition getTimestampBySlot :: "rpc \<Rightarrow> int \<Rightarrow> int io" where
  "getTimestampBySlot r slot w =
     (case getLatestSlot r w of
        (Inl e, w') \<Rightarrow> (Inl e, w')
      | (Inr latestSlot, w') \<Rightarrow>
          if slot < 0 \<or> slot > latestSlot
          then (Inl (Error (''Slot '' @ number_toString slot @ '' is out of range. Latest slot is ''
                  @ number_toString latestSlot @ ''.'')), w')
          else getCachedSlotTime r slot w')"

section \<open>The request handler\<close>

text \<open>
  The three query parameters of a request (\<open>None\<close>: the parameter is absent).
  Writing to the console is not modelled.
\<close>

record request =
  timestampsParam :: "string option"
  blockNumberParam :: "string option"
  chainParam :: "string option"

text \<open>A string, possibly \<open>undefined\<close>, used as a condition: true unless absent or empty.\<close>

definition truthy :: "string option \<Rightarrow> bool" where
  "truthy p = (case p of None \<Rightarrow> False | Some s \<Rightarrow> s \<noteq> [])"

text \<open>\<open>s.split(",")\<close>.\<close>

fun split_at :: "char \<Rightarrow> string \<Rightarrow> string list" where
  "split_at sep [] = [[]]"
| "split_at sep (x # xs) =
     (if x = sep then [] # split_at sep xs
      else (case split_at sep xs of
              [] \<Rightarrow> [[x]]
            | y # ys \<Rightarrow> (x # y) # ys))"

text \<open>
  \<open>String.prototype.trim\<close> is a parameter of the handler, as \<open>Number\<close> is.
  \<open>trim_ascii\<close> is what it does to a string all of whose white space is among the six
  ASCII white space characters; it stands for \<open>trim\<close> where a concrete request of such
  strings is evaluated.
\<close>

definition is_space :: "char \<Rightarrow> bool" where
  "is_space ch = (ch \<in> set [CHR '' '', CHR 0x09, CHR 0x0A, CHR 0x0B, CHR 0x0C, CHR 0x0D])"

definition trim_ascii :: "string \<Rightarrow> string" where
  "trim_ascii s = rev (dropWhile is_space (rev (dropWhile is_space s)))"

subsection \<open>Plain objects used as dictionaries\<close>

text \<open>
  \<open>results\<close>, \<open>cache\<close> and \<open>cache[chain]\<close> are plain objects, so a key that is the
  name of a property of \<open>Object.prototype\<close> is not an ordinary key: reading it finds
  the inherited property, and writing \<open>__proto__\<close> calls the inherited setter instead
  of creating a property.
\<close>

definition prototype_names :: "string list" where
  "prototype_names =
     [''constructor'', ''__defineGetter__'', ''__defineSetter__'', ''hasOwnProperty'',
      ''__lookupGetter__'', ''__lookupSetter__'', ''isPrototypeOf'', ''propertyIsEnumerable'',
      ''toString'', ''valueOf'', ''__proto__'', ''toLocaleString'']"

text \<open>
  The values the handler reads from the cache and writes to \<open>results\<close>: a number,
  \<open>null\<close>, or what \<open>Object.prototype\<close> holds under a name (\<open>Builtin\<close>): a function,
  and under \<open>__proto__\<close> the prototype object itself.
\<close>

datatype jsval = Num int | Null | Builtin string

text \<open>
  The object \<open>results\<close>: its own properties, and whether its prototype has been set to
  \<open>null\<close>. \<open>put k v\<close> is \<open>results[k] = v\<close>. While the prototype is not \<open>null\<close>, writing
  \<open>__proto__\<close> creates no property: the setter changes the prototype when the value
  is \<open>null\<close> or an object and does nothing when it is a number.
\<close>

record object =
  own :: "string \<rightharpoonup> jsval"
  null_proto :: bool

definition empty_object :: object where
  "empty_object = \<lparr>own = Map.empty, null_proto = False\<rparr>"

definition put :: "string \<Rightarrow> jsval \<Rightarrow> object \<Rightarrow> object" where
  "put k v obj =
     (if k = ''__proto__'' \<and> \<not> null_proto obj
      then (if v = Null then obj\<lparr>null_proto := True\<rparr> else obj)
      else obj\<lparr>own := (own obj)(k \<mapsto> v)\<rparr>)"

text \<open>
  \<open>c.json(results)\<close> writes the own properties: a property holding a function is left
  out, and the prototype object is written as an empty object.
\<close>

datatype json = JNumber int | JNull | JEmptyObject

definition to_json :: "jsval \<Rightarrow> json option" where
  "to_json v =
     (case v of
        Num n \<Rightarrow> Some (JNumber n)
      | Null \<Rightarrow> Some JNull
      | Builtin name \<Rightarrow> if name = ''__proto__'' then Some JEmptyObject else None)"

definition serialize :: "object \<Rightarrow> (string \<rightharpoonup> json)" where
  "serialize obj k = (case own obj k of None \<Rightarrow> None | Some v \<Rightarrow> to_json v)"

text \<open>The three responses \<open>handleApiRoute\<close> can give.\<close>

datatype response =
    JsonResults "string \<rightharpoonup> json"
  | TextResponse string int
  | JsonError string int

text \<open>
  \<open>cache[chain] && cache[chain][timestamp]\<close>: the value found when the condition is
  true. \<open>routeCache\<close> holds the own properties of \<open>cache\<close> and of each \<open>cache[chain]\<close>,
  which are numbers. A number counts as true unless it is 0; a key that is not an own
  property but is the name of a property of \<open>Object.prototype\<close> finds that property,
  which counts as true. This, \<open>route_store\<close> and the functions built on them are exact
  when \<open>chain\<close> itself is not such a name.
\<close>

definition route_lookup :: "string \<Rightarrow> string \<Rightarrow> world \<Rightarrow> jsval option" where
  "route_lookup chain timestamp w =
     (case routeCache w chain of
        None \<Rightarrow> None
      | Some m \<Rightarrow>
          (case m timestamp of
             Some b \<Rightarrow> if b = 0 then None else Some (Num b)
           | None \<Rightarrow>
               if timestamp \<in> set prototype_names then Some (Builtin timestamp) else None))"

text \<open>
  \<open>if (!cache[chain]) cache[chain] = {}; cache[chain][timestamp] = blockNumber;\<close>
  Writing the number to \<open>__proto__\<close> creates no property.
\<close>

definition route_store :: "string \<Rightarrow> string \<Rightarrow> int \<Rightarrow> world \<Rightarrow> world" where
  "route_store chain timestamp blockNumber w =
     (let m = (case routeCache w chain of None \<Rightarrow> Map.empty | Some m \<Rightarrow> m)
      in w\<lparr>routeCache := (routeCache w)
             (chain \<mapsto> (if timestamp = ''__proto__'' then m else m(timestamp \<mapsto> blockNumber)))\<rparr>)"

text \<open>
  \<open>c.req.query("chain") || "evm"\<close>, and the two conditional expressions that pick the
  resolver by chain. \<open>Number\<close>, the language's conversion of a string to a number, is
  a parameter of the model; where the conversion gives no integer (\<open>NaN\<close> for a string
  that is not a number) the resolvers are outside the model.
\<close>

definition chain_of :: "request \<Rightarrow> string" where
  "chain_of c = (if truthy (chainParam c) then the (chainParam c) else ''evm'')"

definition resolve_timestamp :: "(string \<Rightarrow> int) \<Rightarrow> rpc \<Rightarrow> string \<Rightarrow> string \<Rightarrow> int io" where
  "resolve_timestamp Number r chain timestamp =
     (if chain = ''solana'' then getSolanaBlockByTimestamp r (Number timestamp)
      else getEVMBlockByTimestamp r (Number timestamp))"

definition resolve_blockNumber :: "(string \<Rightarrow> int) \<Rightarrow> rpc \<Rightarrow> string \<Rightarrow> string \<Rightarrow> int io" where
  "resolve_blockNumber Number r chain param =
     (if chain = ''solana'' then getTimestampBySlot r (Number param)
      else getTimestampByBlockNumber r (Number param))"

text \<open>
  What \<open>Number\<close> gives for a string of decimal digits; the conversion of the requests
  evaluated below, whose numeric items are such strings.
\<close>

definition decimal :: "string \<Rightarrow> int" where
  "decimal s = foldl (\<lambda>n ch. 10 * n + (int (of_char ch) - 48)) 0 s"

text \<open>The \<open>for (const timestamp of timestamps)\<close> loop, with its \<open>try\<close> and \<open>catch\<close>.\<close>

fun timestamps_loop ::
  "(string \<Rightarrow> int) \<Rightarrow> rpc \<Rightarrow> string \<Rightarrow> string list \<Rightarrow> object \<Rightarrow> world \<Rightarrow> object \<times> world" where
  "timestamps_loop Number r chain [] results w = (results, w)"
| "timestamps_loop Number r chain (timestamp # rest) results w =
     (case route_lookup chain timestamp w of
        Some cached \<Rightarrow> timestamps_loop Number r chain rest (put timestamp cached results) w
      | None \<Rightarrow>
          (case resolve_timestamp Number r chain timestamp w of
             (Inr blockNumber, w') \<Rightarrow>
               timestamps_loop Number r chain rest (put timestamp (Num blockNumber) results)
                 (route_store chain timestamp blockNumber w')
           | (Inl err, w') \<Rightarrow>
               timestamps_loop Number r chain rest (put timestamp Null results) w'))"

definition handleApiRoute ::
  "(string \<Rightarrow> int) \<Rightarrow> (string \<Rightarrow> string) \<Rightarrow> rpc \<Rightarrow> request \<Rightarrow> world \<Rightarrow> response \<times> world" where
  "handleApiRoute Number trim r c w =
     (let chain = chain_of c in
      if truthy (timestampsParam c) then
        (let timestamps = map trim (split_at CHR '','' (the (timestampsParam c)));
             (results, w') = timestamps_loop Number r chain timestamps empty_object w
         in (JsonResults (serialize results), w'))
      else if truthy (blockNumberParam c) then
        (case resolve_blockNumber Number r chain (the (blockNumberParam c)) w of
           (Inr timestamp, w') \<Rightarrow>
             (JsonResults (serialize (put (the (blockNumberParam c)) (Num timestamp) empty_object)),
              w')
         | (Inl error, w') \<Rightarrow> (TextResponse (''Error: '' @ exn_message error) 500, w'))
      else (JsonError ''No timestamps or block number provided'' 400, w))"

text \<open>The state of a process that has just started: empty caches, nothing done yet.\<close>

definition initial_world :: world where
  "initial_world =
     \<lparr>slotTimeCache = Map.empty, blockTimestampCache = Map.empty, routeCache = Map.empty,
      trace = [], clock = 0\<rparr>"

section \<open>Synthetic remotes and access patterns\<close>

text \<open>
  A remote that always answers, for a chain whose latest index is \<open>N\<close> and whose record
  at index \<open>i\<close> in \<open>[0, N]\<close> has the timestamp \<open>ts i\<close>; it has no record outside
  \<open>[0, N]\<close>. Both endpoints answer from the same function.
\<close>

definition synthetic_rpc :: "int \<Rightarrow> (int \<Rightarrow> int) \<Rightarrow> rpc" where
  "synthetic_rpc N ts =
     \<lparr>eth_blockNumber = (\<lambda>n. Inr N),
      eth_getBlockByNumber = (\<lambda>n i. if 0 \<le> i \<and> i \<le> N then Inr (Some (ts i)) else Inr None),
      getSlot = (\<lambda>n. Inr N),
      getBlockTime = (\<lambda>n i. if 0 \<le> i \<and> i \<le> N then Inr (Some (ts i)) else Inr None)\<rparr>"

text \<open>A sequence of lookups in one cache, one after the other; \<open>fetch key\<close> is the fetch
  function passed with \<open>key\<close>.\<close>

fun lookups :: "cache_ref \<Rightarrow> (int \<Rightarrow> int io) \<Rightarrow> int list \<Rightarrow> world \<Rightarrow> world" where
  "lookups c fetch [] w = w"
| "lookups c fetch (key # keys) w = lookups c fetch keys (snd (getCachedData c key (fetch key) w))"

text \<open>
  In such a sequence, where the fetch function of \<open>key\<close> makes the external call
  \<open>lbl key\<close> answered by \<open>h key\<close>: whenever a key is looked up that is not cached yet,
  the fetch made at that moment succeeds.
\<close>

fun first_fetch_succeeds ::
  "cache_ref \<Rightarrow> (int \<Rightarrow> call) \<Rightarrow> (int \<Rightarrow> nat \<Rightarrow> exn + int) \<Rightarrow> int list \<Rightarrow> world \<Rightarrow> bool" where
  "first_fetch_succeeds c lbl h [] w = True"
| "first_fetch_succeeds c lbl h (key # keys) w =
     ((cache_of c w key = None \<longrightarrow> \<not> isl (h key (length (trace w)))) \<and>
      first_fetch_succeeds c lbl h keys
        (snd (getCachedData c key (invoke (lbl key) (h key)) w)))"

section \<open>Remotes that answer from a timestamp function\<close>

text \<open>The absolute difference between the timestamp at an index and the target.\<close>

definition distance :: "(int \<Rightarrow> int) \<Rightarrow> int \<Rightarrow> int \<Rightarrow> int" where
  "distance ts target i = \<bar>ts i - target\<bar>"

text \<open>
  The EVM endpoint answers every request: the latest block number is \<open>N\<close>, and the
  block at an index \<open>i\<close> of \<open>[0, N]\<close> has the timestamp \<open>ts i\<close>.
\<close>

definition evm_answers :: "rpc \<Rightarrow> int \<Rightarrow> (int \<Rightarrow> int) \<Rightarrow> bool" where
  "evm_answers r N ts \<longleftrightarrow>
     (\<forall>n. eth_blockNumber r n = Inr N) \<and>
     (\<forall>n i. 0 \<le> i \<and> i \<le> N \<longrightarrow> eth_getBlockByNumber r n i = Inr (Some (ts i)))"


text \<open>What a cache holds came from the timestamp function.\<close>

definition agrees :: "(int \<rightharpoonup> int) \<Rightarrow> (int \<Rightarrow> int) \<Rightarrow> bool" where
  "agrees cache ts \<longleftrightarrow> (\<forall>i v. cache i = Some v \<longrightarrow> v = ts i)"

text \<open>The timestamp function is strictly increasing over \<open>[0, N]\<close>.\<close>

definition strictly_increasing :: "(int \<Rightarrow> int) \<Rightarrow> int \<Rightarrow> bool" where
  "strictly_increasing ts N \<longleftrightarrow> (\<forall>i j. 0 \<le> i \<and> i < j \<and> j \<le> N \<longrightarrow> ts i < ts j)"

text \<open>
  The state after a lookup of \<open>key\<close> that returned \<open>v\<close> without a failed attempt: as
  before when the key was cached, and otherwise with the one request made and the value
  stored.
\<close>

definition looked_up :: "cache_ref \<Rightarrow> call \<Rightarrow> int \<Rightarrow> int \<Rightarrow> world \<Rightarrow> world" where
  "looked_up c request key v w =
     (case cache_of c w key of
        Some u \<Rightarrow> w
      | None \<Rightarrow> cache_store c key v (w\<lparr>trace := trace w @ [request]\<rparr>))"

section \<open>Properties of retry\<close>

lemma retry_loop_succeeds_after:
  "\<forall>i<k. isl (f (length (trace w) + i)) \<Longrightarrow> f (length (trace w) + k) = Inr v \<Longrightarrow>
   a + int k < n \<Longrightarrow>
   retry_loop (invoke Invoke f) n d a w =
     (Inr v, w\<lparr>trace := trace w @ replicate (Suc k) Invoke, clock := clock w + int k * d\<rparr>)"
proof (induction k arbitrary: a w)
  case 0
  then show ?case
    by (subst retry_loop.simps) (simp add: invoke_def)
next
  case (Suc k)
  from Suc.prems(1) have "isl (f (length (trace w)))" by force
  then obtain e where e: "f (length (trace w)) = Inl e" by (cases "f (length (trace w))") auto
  let ?w1 = "delay d (w\<lparr>trace := trace w @ [Invoke]\<rparr>)"
  have len: "length (trace ?w1) = Suc (length (trace w))" by (simp add: delay_def)
  have 1: "\<forall>i<k. isl (f (length (trace ?w1) + i))"
    using Suc.prems(1) unfolding len by (metis Suc_less_eq add_Suc_shift)
  have 2: "f (length (trace ?w1) + k) = Inr v"
    using Suc.prems(2) unfolding len by simp
  have 3: "(a + 1) + int k < n" using Suc.prems(3) by simp
  have step: "retry_loop (invoke Invoke f) n d a w = retry_loop (invoke Invoke f) n d (a + 1) ?w1"
    using Suc.prems(3) e by (subst retry_loop.simps) (simp add: invoke_def)
  show ?case
    unfolding step Suc.IH[OF 1 2 3]
    by (simp add: delay_def replicate_app_Cons_same algebra_simps)
qed

lemma retry_loop_exhausted:
  "\<forall>i<m. isl (f (length (trace w) + i)) \<Longrightarrow> a + int (Suc m) = n \<Longrightarrow>
   isl (f (length (trace w) + m)) \<Longrightarrow>
   retry_loop (invoke Invoke f) n d a w =
     (Inl (Error (''Max retries reached: '' @ String (projl (f (length (trace w) + m))))),
      w\<lparr>trace := trace w @ replicate (Suc m) Invoke, clock := clock w + int m * d\<rparr>)"
proof (induction m arbitrary: a w)
  case 0
  then obtain e where e: "f (length (trace w)) = Inl e" by (cases "f (length (trace w))") auto
  with 0 show ?case
    by (subst retry_loop.simps) (simp add: invoke_def)
next
  case (Suc m)
  from Suc.prems(1) have "isl (f (length (trace w)))" by force
  then obtain e where e: "f (length (trace w)) = Inl e" by (cases "f (length (trace w))") auto
  let ?w1 = "delay d (w\<lparr>trace := trace w @ [Invoke]\<rparr>)"
  have len: "length (trace ?w1) = Suc (length (trace w))" by (simp add: delay_def)
  have 1: "\<forall>i<m. isl (f (length (trace ?w1) + i))"
    using Suc.prems(1) unfolding len by (metis Suc_less_eq add_Suc_shift)
  have 2: "isl (f (length (trace ?w1) + m))"
    using Suc.prems(3) unfolding len by simp
  have 3: "(a + 1) + int (Suc m) = n" using Suc.prems(2) by simp
  have step: "retry_loop (invoke Invoke f) n d a w = retry_loop (invoke Invoke f) n d (a + 1) ?w1"
    using Suc.prems(2) e by (subst retry_loop.simps) (simp add: invoke_def)
  show ?case
    unfolding step Suc.IH[OF 1 3 2]
    by (simp add: delay_def replicate_app_Cons_same algebra_simps)
qed

lemma retry_loop_no_attempt:
  "retries \<le> attempt \<Longrightarrow>
   retry_loop fn retries delayMs attempt w = (Inl (Error ''Max retries reached without success.''), w)"
  by (subst retry_loop.simps) simp

text \<open>
  C10: with \<open>retries \<le> 0\<close>, \<open>retry\<close> fails with the message
  "Max retries reached without success." and leaves the state as it was, whatever the
  operation is: the operation is never invoked (no call is added to the trace, no
  delay is spent).
\<close>

theorem retry_zero_attempts:
  "retries \<le> 0 \<Longrightarrow>
   retry fn retries delayMs w = (Inl (Error ''Max retries reached without success.''), w)"
  unfolding retry_def by (rule retry_loop_no_attempt)

theorem retry_zero_attempts_witness:
  "retry (invoke Invoke (\<lambda>n. Inr (7::int))) 0 1000 initial_world =
     (Inl (Error ''Max retries reached without success.''), initial_world) \<and>
   trace (snd (retry (invoke Invoke (\<lambda>n. Inr (7::int))) (- 2) 1000 initial_world)) = []"
  using retry_zero_attempts [of 0 "invoke Invoke (\<lambda>n. Inr (7::int))" 1000 initial_world]
    retry_zero_attempts [of "- 2" "invoke Invoke (\<lambda>n. Inr (7::int))" 1000 initial_world]
  by (simp add: initial_world_def)

text \<open>
  C4: let the operation fail at its first \<open>k\<close> invocations and return \<open>v\<close> at the next
  one. If \<open>k < n\<close>, \<open>retry\<close> with \<open>n\<close> attempts returns \<open>v\<close> after exactly \<open>k + 1\<close>
  invocations (and \<open>k\<close> delays). If \<open>n \<le> k\<close> it fails after exactly \<open>n\<close> invocations
  (none when \<open>n \<le> 0\<close>), and when there was an invocation (\<open>1 \<le> n\<close>) the message of
  the error is "Max retries reached: " followed by the description of the error of the
  last invocation. So it succeeds if and only if \<open>k < n\<close>.
\<close>

theorem retry_fails_k_then_succeeds:
  assumes "\<forall>i<k. isl (f (length (trace w) + i))"
    and "f (length (trace w) + k) = Inr v"
  shows "(int k < n \<longrightarrow>
            retry (invoke Invoke f) n d w =
              (Inr v, w\<lparr>trace := trace w @ replicate (k + 1) Invoke,
                         clock := clock w + int k * d\<rparr>)) \<and>
         (n \<le> int k \<longrightarrow>
            (\<exists>e. retry (invoke Invoke f) n d w =
              (Inl e, w\<lparr>trace := trace w @ replicate (nat n) Invoke,
                         clock := clock w + int (nat n - 1) * d\<rparr>) \<and>
              (1 \<le> n \<longrightarrow>
                 exn_message e =
                   ''Max retries reached: '' @ String (projl (f (length (trace w) + (nat n - 1)))))))"
proof (intro conjI impI)
  assume "int k < n"
  then show "retry (invoke Invoke f) n d w =
      (Inr v, w\<lparr>trace := trace w @ replicate (k + 1) Invoke, clock := clock w + int k * d\<rparr>)"
    unfolding retry_def using retry_loop_succeeds_after[OF assms, of 0 n d] by simp
next
  assume nk: "n \<le> int k"
  show "\<exists>e. retry (invoke Invoke f) n d w =
              (Inl e, w\<lparr>trace := trace w @ replicate (nat n) Invoke,
                         clock := clock w + int (nat n - 1) * d\<rparr>) \<and>
              (1 \<le> n \<longrightarrow>
                 exn_message e =
                   ''Max retries reached: '' @ String (projl (f (length (trace w) + (nat n - 1)))))"
  proof (cases "n \<le> 0")
    case True
    then show ?thesis
      unfolding retry_def by (simp add: retry_loop_no_attempt)
  next
    case False
    then obtain m where m: "nat n = Suc m" by (cases "nat n") auto
    have 1: "\<forall>i<m. isl (f (length (trace w) + i))" using assms(1) nk m by auto
    have 2: "isl (f (length (trace w) + m))" using assms(1) nk m by auto
    have 3: "0 + int (Suc m) = n" using m False by linarith
    show ?thesis
      unfolding retry_def retry_loop_exhausted[OF 1 3 2] using m False
      by (simp add: Error_def)
  qed
qed

theorem retry_fails_k_then_succeeds_witness:
  "isl ((\<lambda>i::nat. if i < 1 then Inl (Error ''First attempt failed'') else Inr (7::int)) 0) \<and>
   retry (invoke Invoke (\<lambda>i. if i < 1 then Inl (Error ''First attempt failed'') else Inr (7::int)))
       2 100 initial_world =
     (Inr 7, initial_world\<lparr>trace := [Invoke, Invoke], clock := 100\<rparr>) \<and>
   (\<exists>e. retry (invoke Invoke (\<lambda>i. if i < 1 then Inl (Error ''Always fails'') else Inr (7::int)))
       1 100 initial_world =
     (Inl e, initial_world\<lparr>trace := [Invoke], clock := 0\<rparr>) \<and>
     exn_message e = ''Max retries reached: Error: Always fails'')"
  using retry_fails_k_then_succeeds
      [of 1 "\<lambda>i. if i < 1 then Inl (Error ''First attempt failed'') else Inr (7::int)"
          initial_world 7 2 100]
    retry_fails_k_then_succeeds
      [of 1 "\<lambda>i. if i < 1 then Inl (Error ''Always fails'') else Inr (7::int)"
          initial_world 7 1 100]
  by (simp add: initial_world_def String_def Error_def numeral_2_eq_2)

section \<open>Properties of the point cache\<close>

lemma getCachedData_hit:
  "cache_of c w key = Some v \<Longrightarrow> getCachedData c key fetchFunc w = (Inr v, w)"
  unfolding getCachedData_def retry_default_def retry_def
  by (subst retry_loop.simps) (simp add: cached_attempt_def)

lemma getCachedData_miss_first_ok:
  "cache_of c w key = None \<Longrightarrow> fetchFunc w = (Inr v, w1) \<Longrightarrow>
   getCachedData c key fetchFunc w = (Inr v, cache_store c key v w1)"
  unfolding getCachedData_def retry_default_def retry_def
  by (subst retry_loop.simps) (simp add: cached_attempt_def)

lemma cache_of_store:
  "cache_of c (cache_store c key v w) = (cache_of c w)(key \<mapsto> v)"
  by (cases c) (simp_all add: cache_of_def cache_store_def)

lemma trace_store [simp]: "trace (cache_store c key v w) = trace w"
  by (cases c) (simp_all add: cache_store_def)

lemma cache_of_trace_update [simp]: "cache_of c (w\<lparr>trace := t\<rparr>) = cache_of c w"
  by (cases c) (simp_all add: cache_of_def)

lemma lookup_step:
  assumes "cache_of c w key = None \<longrightarrow> \<not> isl (h key (length (trace w)))"
  shows "\<exists>v. getCachedData c key (invoke (lbl key) (h key)) w =
           (Inr v, if cache_of c w key = None
                   then cache_store c key v (w\<lparr>trace := trace w @ [lbl key]\<rparr>) else w) \<and>
           (cache_of c w key = None \<or> cache_of c w key = Some v)"
proof (cases "cache_of c w key")
  case None
  with assms obtain v where v: "h key (length (trace w)) = Inr v"
    by (cases "h key (length (trace w))") auto
  have "invoke (lbl key) (h key) w = (Inr v, w\<lparr>trace := trace w @ [lbl key]\<rparr>)"
    by (simp add: invoke_def v)
  with None have "getCachedData c key (invoke (lbl key) (h key)) w =
      (Inr v, cache_store c key v (w\<lparr>trace := trace w @ [lbl key]\<rparr>))"
    by (rule getCachedData_miss_first_ok)
  with None show ?thesis by simp
next
  case (Some v)
  from getCachedData_hit [OF Some] Some show ?thesis by simp
qed

lemma lookups_once:
  "inj lbl \<Longrightarrow> first_fetch_succeeds c lbl h keys w \<Longrightarrow>
   (\<forall>k. count_list (trace (lookups c (\<lambda>k. invoke (lbl k) (h k)) keys w)) (lbl k) =
          count_list (trace w) (lbl k) + (if k \<in> set keys \<and> cache_of c w k = None then 1 else 0)) \<and>
   (\<forall>k v. cache_of c w k = Some v \<longrightarrow>
          cache_of c (lookups c (\<lambda>k. invoke (lbl k) (h k)) keys w) k = Some v) \<and>
   (\<forall>k\<in>set keys. cache_of c (lookups c (\<lambda>k. invoke (lbl k) (h k)) keys w) k \<noteq> None)"
proof (induction keys arbitrary: w)
  case Nil
  then show ?case by simp
next
  case (Cons key keys)
  let ?f = "\<lambda>k. invoke (lbl k) (h k)"
  from Cons.prems(2) have ok: "cache_of c w key = None \<longrightarrow> \<not> isl (h key (length (trace w)))"
    and rest: "first_fetch_succeeds c lbl h keys (snd (getCachedData c key (?f key) w))"
    by simp_all
  have "\<exists>v. getCachedData c key (invoke (lbl key) (h key)) w =
           (Inr v, if cache_of c w key = None
                   then cache_store c key v (w\<lparr>trace := trace w @ [lbl key]\<rparr>) else w) \<and>
           (cache_of c w key = None \<or> cache_of c w key = Some v)"
    using ok by (rule lookup_step)
  then obtain v where
    step: "getCachedData c key (?f key) w =
           (Inr v, if cache_of c w key = None
                   then cache_store c key v (w\<lparr>trace := trace w @ [lbl key]\<rparr>) else w)"
    and v: "cache_of c w key = None \<or> cache_of c w key = Some v"
    by (elim exE conjE)
  let ?w1 = "snd (getCachedData c key (?f key) w)"
  have w1: "?w1 = (if cache_of c w key = None
                   then cache_store c key v (w\<lparr>trace := trace w @ [lbl key]\<rparr>) else w)"
    by (simp add: step)
  have c1: "cache_of c ?w1 = (cache_of c w)(key \<mapsto> v)"
    using v by (auto simp: w1 cache_of_store)
  have t1: "trace ?w1 = (if cache_of c w key = None then trace w @ [lbl key] else trace w)"
    by (simp add: w1)
  note IH = Cons.IH [OF Cons.prems(1) rest]
  have eq: "lookups c ?f (key # keys) w = lookups c ?f keys ?w1" by simp
  show ?case
    unfolding eq
  proof (intro conjI allI impI ballI)
    fix k
    have "lbl k = lbl key \<longleftrightarrow> k = key" using Cons.prems(1) by (auto dest: injD)
    then show "count_list (trace (lookups c ?f keys ?w1)) (lbl k) =
        count_list (trace w) (lbl k) +
          (if k \<in> set (key # keys) \<and> cache_of c w k = None then 1 else 0)"
      using IH c1 t1 by (auto simp: fun_upd_def)
  next
    fix k v' assume "cache_of c w k = Some v'"
    then have "cache_of c ?w1 k = Some v'" using c1 v by (auto simp: fun_upd_def)
    then show "cache_of c (lookups c ?f keys ?w1) k = Some v'" using IH by blast
  next
    fix k assume "k \<in> set (key # keys)"
    then consider "k \<in> set keys" | "k = key" by auto
    then show "cache_of c (lookups c ?f keys ?w1) k \<noteq> None"
    proof cases
      case 1 then show ?thesis using IH by blast
    next
      case 2
      then have "cache_of c ?w1 k = Some v" using c1 by simp
      then show ?thesis using IH by fastforce
    qed
  qed
qed

text \<open>
  C6: take any sequence of lookups in one cache in which each fetch made for a key that
  is not cached yet succeeds. Over the whole sequence the fetch of a key is invoked
  exactly once when the key occurs in the sequence and was not cached before, and not at
  all otherwise: at most once per distinct key. A value that was in the cache before the
  sequence is still there, unchanged, after it. And after the sequence a lookup of any
  of its keys returns the cached value and leaves the state as it is, whatever fetch
  function it is given: the function is not invoked.
\<close>

theorem getCachedData_fetches_once:
  assumes "inj lbl" and "first_fetch_succeeds c lbl h keys w"
  shows "(\<forall>k. count_list (trace (lookups c (\<lambda>k. invoke (lbl k) (h k)) keys w)) (lbl k) =
            count_list (trace w) (lbl k) +
              (if k \<in> set keys \<and> cache_of c w k = None then 1 else 0)) \<and>
         (\<forall>k v. cache_of c w k = Some v \<longrightarrow>
            cache_of c (lookups c (\<lambda>k. invoke (lbl k) (h k)) keys w) k = Some v) \<and>
         (\<forall>k\<in>set keys. \<exists>v.
            cache_of c (lookups c (\<lambda>k. invoke (lbl k) (h k)) keys w) k = Some v \<and>
            (\<forall>fetchFunc.
               getCachedData c k fetchFunc (lookups c (\<lambda>k. invoke (lbl k) (h k)) keys w) =
                 (Inr v, lookups c (\<lambda>k. invoke (lbl k) (h k)) keys w)))"
proof -
  let ?w' = "lookups c (\<lambda>k. invoke (lbl k) (h k)) keys w"
  note once = lookups_once [OF assms]
  have "\<exists>v. cache_of c ?w' k = Some v \<and>
          (\<forall>fetchFunc. getCachedData c k fetchFunc ?w' = (Inr v, ?w'))"
    if "k \<in> set keys" for k
  proof -
    from once that obtain v where "cache_of c ?w' k = Some v" by blast
    then show ?thesis by (simp add: getCachedData_hit)
  qed
  with once show ?thesis by blast
qed

lemma getSlotTime_invoke:
  "getSlotTime r slot =
     invoke (GetBlockTime slot)
       (\<lambda>n. case getBlockTime r n slot of
              Inl e \<Rightarrow> Inl e
            | Inr None \<Rightarrow> Inl (Error (''No timestamp found for slot '' @ number_toString slot))
            | Inr (Some t) \<Rightarrow> Inr t)"
  by (rule ext) (simp add: getSlotTime_def invoke_def split: sum.splits option.splits)

theorem getCachedData_fetches_once_witness:
  "inj GetBlockTime \<and>
   count_list (trace (lookups SlotTimeCache (getSlotTime (synthetic_rpc 10 (\<lambda>i. 1000 + i)))
      [5, 7, 5] initial_world)) (GetBlockTime 5) = 1 \<and>
   (\<exists>v. \<forall>fetchFunc.
      getCachedData SlotTimeCache 5 fetchFunc
        (lookups SlotTimeCache (getSlotTime (synthetic_rpc 10 (\<lambda>i. 1000 + i)))
           [5, 7, 5] initial_world) =
      (Inr v, lookups SlotTimeCache (getSlotTime (synthetic_rpc 10 (\<lambda>i. 1000 + i)))
           [5, 7, 5] initial_world))"
proof -
  let ?r = "synthetic_rpc 10 (\<lambda>i. 1000 + i)"
  let ?h = "\<lambda>slot n. case getBlockTime ?r n slot of
              Inl e \<Rightarrow> Inl e
            | Inr None \<Rightarrow> Inl (Error (''No timestamp found for slot '' @ number_toString slot))
            | Inr (Some t) \<Rightarrow> Inr t"
  have fetch: "getSlotTime ?r = (\<lambda>k. invoke (GetBlockTime k) (?h k))"
    by (rule ext) (rule getSlotTime_invoke)
  have i: "inj GetBlockTime" by (simp add: inj_def)
  have h: "?h 5 n = Inr 1005" "?h 7 n = Inr 1007" for n
    by (simp_all add: synthetic_rpc_def)
  have f: "first_fetch_succeeds SlotTimeCache GetBlockTime ?h [5, 7, 5] initial_world"
    by (simp add: h)
  have e: "cache_of SlotTimeCache initial_world 5 = None"
    "count_list (trace initial_world) (GetBlockTime 5) = 0"
    by (simp_all add: cache_of_def initial_world_def)
  from getCachedData_fetches_once [OF i f] e i show ?thesis
    unfolding fetch by auto
qed

section \<open>Block identifier to timestamp, and the genesis shortcut\<close>

text \<open>
  C5: when \<open>getLatestSlot\<close> has returned \<open>latestSlot\<close> and the requested slot is below 0
  or above \<open>latestSlot\<close>, \<open>getTimestampBySlot\<close> fails with the message
  "Slot <slot> is out of range. Latest slot is <latestSlot>.", and the only thing it has
  done is the \<open>getSlot\<close> request: no slot time was looked up, no cache was written.
  The two numbers are \<open>exact\<close>, of magnitude at most \<open>2^53\<close>: these the message shows
  with all their digits, as \<open>number_toString\<close> does.
\<close>

theorem getTimestampBySlot_out_of_range:
  "getLatestSlot r w = (Inr latestSlot, w') \<Longrightarrow> slot < 0 \<or> slot > latestSlot \<Longrightarrow>
   exact slot \<Longrightarrow> exact latestSlot \<Longrightarrow>
   getTimestampBySlot r slot w =
     (Inl (Error (''Slot '' @ number_toString slot @ '' is out of range. Latest slot is ''
        @ number_toString latestSlot @ ''.'')), w') \<and>
   w' = w\<lparr>trace := trace w @ [GetSlot]\<rparr>"
  by (auto simp: getTimestampBySlot_def getLatestSlot_def invoke_def)

theorem getTimestampBySlot_out_of_range_witness:
  "exact 200000 \<and> exact 100000 \<and> exact (- 1) \<and>
   getLatestSlot (synthetic_rpc 100000 (\<lambda>i. i)) initial_world =
     (Inr 100000, initial_world\<lparr>trace := [GetSlot]\<rparr>) \<and>
   getTimestampBySlot (synthetic_rpc 100000 (\<lambda>i. i)) 200000 initial_world =
     (Inl (Error ''Slot 200000 is out of range. Latest slot is 100000.''),
      initial_world\<lparr>trace := [GetSlot]\<rparr>) \<and>
   getTimestampBySlot (synthetic_rpc 100000 (\<lambda>i. i)) (- 1) initial_world =
     (Inl (Error ''Slot -1 is out of range. Latest slot is 100000.''),
      initial_world\<lparr>trace := [GetSlot]\<rparr>)"
proof -
  have l: "getLatestSlot (synthetic_rpc 100000 (\<lambda>i. i)) initial_world =
     (Inr 100000, initial_world\<lparr>trace := [GetSlot]\<rparr>)"
    by (simp add: getLatestSlot_def invoke_def synthetic_rpc_def initial_world_def)
  have s1: "number_toString 200000 = ''200000''" "number_toString 100000 = ''100000''"
    "number_toString (- 1) = ''-1''"
    by (simp_all add: number_toString_def string_of_nat.simps)
  have e: "exact 200000" "exact 100000" "exact (- 1)"
    by (simp_all add: exact_def MAX_SAFE_INTEGER_def)
  show ?thesis
    using getTimestampBySlot_out_of_range [OF l _ e(1) e(2)]
      getTimestampBySlot_out_of_range [OF l _ e(3) e(2)] l e
    by (simp add: s1)
qed

text \<open>
  C7: when the target timestamp is at most the timestamp of slot 0,
  \<open>getSolanaBlockByTimestamp\<close> returns 0 in the state reached by fetching the latest slot
  and looking up slot 0: nothing is done after that, neither the binary search nor the
  refinement.
\<close>

theorem getSolanaBlockByTimestamp_genesis:
  "getLatestSlot r w = (Inr latestSlot, w1) \<Longrightarrow>
   getCachedSlotTime r 0 w1 = (Inr genesisTimestamp, w2) \<Longrightarrow>
   timestamp \<le> genesisTimestamp \<Longrightarrow>
   getSolanaBlockByTimestamp r timestamp w = (Inr 0, w2)"
  by (simp add: getSolanaBlockByTimestamp_def)

theorem getSolanaBlockByTimestamp_genesis_witness:
  "getLatestSlot (synthetic_rpc 1000 (\<lambda>i. 1600000000 + i)) initial_world =
     (Inr 1000, initial_world\<lparr>trace := [GetSlot]\<rparr>) \<and>
   getCachedSlotTime (synthetic_rpc 1000 (\<lambda>i. 1600000000 + i)) 0 (initial_world\<lparr>trace := [GetSlot]\<rparr>) =
     (Inr 1600000000,
      initial_world\<lparr>slotTimeCache := [0 \<mapsto> 1600000000], trace := [GetSlot, GetBlockTime 0]\<rparr>) \<and>
   getSolanaBlockByTimestamp (synthetic_rpc 1000 (\<lambda>i. 1600000000 + i)) 1500000000 initial_world =
     (Inr 0, initial_world\<lparr>slotTimeCache := [0 \<mapsto> 1600000000], trace := [GetSlot, GetBlockTime 0]\<rparr>)"
proof -
  let ?r = "synthetic_rpc 1000 (\<lambda>i. 1600000000 + i)"
  have l: "getLatestSlot ?r initial_world = (Inr 1000, initial_world\<lparr>trace := [GetSlot]\<rparr>)"
    by (simp add: getLatestSlot_def invoke_def synthetic_rpc_def initial_world_def)
  have f: "getSlotTime ?r 0 (initial_world\<lparr>trace := [GetSlot]\<rparr>) =
      (Inr 1600000000, initial_world\<lparr>trace := [GetSlot, GetBlockTime 0]\<rparr>)"
    by (simp add: getSlotTime_def invoke_def synthetic_rpc_def initial_world_def)
  have g: "getCachedSlotTime ?r 0 (initial_world\<lparr>trace := [GetSlot]\<rparr>) =
     (Inr 1600000000,
      initial_world\<lparr>slotTimeCache := [0 \<mapsto> 1600000000], trace := [GetSlot, GetBlockTime 0]\<rparr>)"
    unfolding getCachedSlotTime_def
    using getCachedData_miss_first_ok
      [of SlotTimeCache "initial_world\<lparr>trace := [GetSlot]\<rparr>" 0 "getSlotTime ?r 0", OF _ f]
    by (simp add: cache_of_def cache_store_def initial_world_def)
  show ?thesis
    using getSolanaBlockByTimestamp_genesis [OF l g, of 1500000000] l g by simp
qed

section \<open>Failing probes in the refinement\<close>







section \<open>Lookups at a remote that answers\<close>

lemma getBlockTimestamp_answers:
  assumes "evm_answers r N ts" and "agrees (blockTimestampCache w) ts" and "0 \<le> i" and "i \<le> N"
  shows "getBlockTimestamp r i w =
    (Inr (ts i), looked_up BlockTimestampCache (EthGetBlockByNumber i) i (ts i) w)"
proof (cases "blockTimestampCache w i")
  case None
  have f: "fetchBlockTimestamp r i w = (Inr (ts i), w\<lparr>trace := trace w @ [EthGetBlockByNumber i]\<rparr>)"
    using assms by (simp add: fetchBlockTimestamp_def invoke_def evm_answers_def)
  have "getCachedData BlockTimestampCache i (fetchBlockTimestamp r i) w =
      (Inr (ts i), cache_store BlockTimestampCache i (ts i)
         (w\<lparr>trace := trace w @ [EthGetBlockByNumber i]\<rparr>))"
    using None by (intro getCachedData_miss_first_ok f) (simp add: cache_of_def)
  then show ?thesis using None by (simp add: getBlockTimestamp_def looked_up_def cache_of_def)
next
  case (Some v)
  with assms(2) have "v = ts i" by (simp add: agrees_def)
  with Some show ?thesis
    by (simp add: getBlockTimestamp_def looked_up_def getCachedData_hit cache_of_def)
qed


lemma looked_up_block_cache:
  "agrees (blockTimestampCache w) ts \<Longrightarrow>
   blockTimestampCache (looked_up BlockTimestampCache q i (ts i) w) = (blockTimestampCache w)(i \<mapsto> ts i)"
  by (auto simp: looked_up_def cache_of_def cache_store_def agrees_def split: option.splits)


lemma agrees_upd: "agrees m ts \<Longrightarrow> agrees (m(i \<mapsto> ts i)) ts"
  by (simp add: agrees_def)


lemma looked_up_length:
  "length (trace (looked_up c q k v w)) \<le> length (trace w) + 1"
  by (simp add: looked_up_def split: option.splits)

lemma looked_up_routeCache:
  "routeCache (looked_up c q k v w) = routeCache w"
  by (cases c) (simp_all add: looked_up_def cache_store_def split: option.splits)

lemma getLatestBlockNumber_answers:
  "evm_answers r N ts \<Longrightarrow>
   getLatestBlockNumber r w = (Inr N, w\<lparr>trace := trace w @ [EthBlockNumber]\<rparr>)"
  by (simp add: getLatestBlockNumber_def invoke_def evm_answers_def)

lemma evm_loop_done:
  "\<not> startBlock \<le> endBlock \<Longrightarrow>
   evm_loop r timestamp startBlock endBlock closestBlock closestTimeDifference w =
     (Inr closestBlock, w)"
  by (subst evm_loop.simps) simp

lemma evm_loop_step:
  assumes "startBlock \<le> endBlock"
    and "getBlockTimestamp r ((startBlock + endBlock) div 2) w = (Inr t, w')"
  shows "evm_loop r timestamp startBlock endBlock closestBlock closestTimeDifference w =
     (if t = timestamp then (Inr ((startBlock + endBlock) div 2), w')
      else if t < timestamp
      then evm_loop r timestamp ((startBlock + endBlock) div 2 + 1) endBlock
             (if \<bar>t - timestamp\<bar> < closestTimeDifference then (startBlock + endBlock) div 2
              else closestBlock)
             (if \<bar>t - timestamp\<bar> < closestTimeDifference then \<bar>t - timestamp\<bar>
              else closestTimeDifference) w'
      else evm_loop r timestamp startBlock ((startBlock + endBlock) div 2 - 1)
             (if \<bar>t - timestamp\<bar> < closestTimeDifference then (startBlock + endBlock) div 2
              else closestBlock)
             (if \<bar>t - timestamp\<bar> < closestTimeDifference then \<bar>t - timestamp\<bar>
              else closestTimeDifference) w')"
  using assms by (subst evm_loop.simps) (simp add: Let_def)

lemma evm_loop_probe:
  assumes "evm_answers r N ts" and "agrees (blockTimestampCache w) ts" and "s \<le> e"
    and "0 \<le> (s + e) div 2" and "(s + e) div 2 \<le> N"
  shows "evm_loop r target s e cb cd w =
     (if ts ((s + e) div 2) = target
      then (Inr ((s + e) div 2),
            looked_up BlockTimestampCache (EthGetBlockByNumber ((s + e) div 2)) ((s + e) div 2)
              (ts ((s + e) div 2)) w)
      else if ts ((s + e) div 2) < target
      then evm_loop r target ((s + e) div 2 + 1) e
             (if \<bar>ts ((s + e) div 2) - target\<bar> < cd then (s + e) div 2 else cb)
             (if \<bar>ts ((s + e) div 2) - target\<bar> < cd then \<bar>ts ((s + e) div 2) - target\<bar> else cd)
             (looked_up BlockTimestampCache (EthGetBlockByNumber ((s + e) div 2)) ((s + e) div 2)
                (ts ((s + e) div 2)) w)
      else evm_loop r target s ((s + e) div 2 - 1)
             (if \<bar>ts ((s + e) div 2) - target\<bar> < cd then (s + e) div 2 else cb)
             (if \<bar>ts ((s + e) div 2) - target\<bar> < cd then \<bar>ts ((s + e) div 2) - target\<bar> else cd)
             (looked_up BlockTimestampCache (EthGetBlockByNumber ((s + e) div 2)) ((s + e) div 2)
                (ts ((s + e) div 2)) w))"
    and "agrees (blockTimestampCache
           (looked_up BlockTimestampCache (EthGetBlockByNumber ((s + e) div 2)) ((s + e) div 2)
              (ts ((s + e) div 2)) w)) ts"
proof -
  have look: "getBlockTimestamp r ((s + e) div 2) w =
      (Inr (ts ((s + e) div 2)),
       looked_up BlockTimestampCache (EthGetBlockByNumber ((s + e) div 2)) ((s + e) div 2)
         (ts ((s + e) div 2)) w)"
    using assms(1,2,4,5) by (rule getBlockTimestamp_answers)
  show "evm_loop r target s e cb cd w =
     (if ts ((s + e) div 2) = target
      then (Inr ((s + e) div 2),
            looked_up BlockTimestampCache (EthGetBlockByNumber ((s + e) div 2)) ((s + e) div 2)
              (ts ((s + e) div 2)) w)
      else if ts ((s + e) div 2) < target
      then evm_loop r target ((s + e) div 2 + 1) e
             (if \<bar>ts ((s + e) div 2) - target\<bar> < cd then (s + e) div 2 else cb)
             (if \<bar>ts ((s + e) div 2) - target\<bar> < cd then \<bar>ts ((s + e) div 2) - target\<bar> else cd)
             (looked_up BlockTimestampCache (EthGetBlockByNumber ((s + e) div 2)) ((s + e) div 2)
                (ts ((s + e) div 2)) w)
      else evm_loop r target s ((s + e) div 2 - 1)
             (if \<bar>ts ((s + e) div 2) - target\<bar> < cd then (s + e) div 2 else cb)
             (if \<bar>ts ((s + e) div 2) - target\<bar> < cd then \<bar>ts ((s + e) div 2) - target\<bar> else cd)
             (looked_up BlockTimestampCache (EthGetBlockByNumber ((s + e) div 2)) ((s + e) div 2)
                (ts ((s + e) div 2)) w))"
    by (rule evm_loop_step [OF assms(3) look])
  show "agrees (blockTimestampCache
           (looked_up BlockTimestampCache (EthGetBlockByNumber ((s + e) div 2)) ((s + e) div 2)
              (ts ((s + e) div 2)) w)) ts"
    by (simp add: looked_up_block_cache [OF assms(2)] agrees_upd [OF assms(2)])
qed

section \<open>The binary search over a strictly increasing timestamp function\<close>

lemma strictly_increasing_le:
  "strictly_increasing ts N \<Longrightarrow> 0 \<le> i \<Longrightarrow> i \<le> j \<Longrightarrow> j \<le> N \<Longrightarrow> ts i \<le> ts j"
  unfolding strictly_increasing_def by (cases "i = j") (simp, metis less_le order_less_imp_le)








lemma evm_loop_below:
  assumes A: "evm_answers r N ts" and M: "strictly_increasing ts N" and B: "target < ts 0"
  shows "agrees (blockTimestampCache w) ts \<Longrightarrow> e \<le> N \<Longrightarrow> - 1 \<le> e \<Longrightarrow>
    cb = 0 \<or> (cb = e + 1 \<and> e + 1 \<le> N \<and> cd = distance ts target cb) \<Longrightarrow> n = nat (e + 1) \<Longrightarrow>
    \<exists>w'. evm_loop r target 0 e cb cd w = (Inr 0, w')"
proof (induction n arbitrary: e cb cd w rule: less_induct)
  case (less n)
  note G = less.prems(1) and eN = less.prems(2) and e1 = less.prems(3) and I = less.prems(4)
    and n = less.prems(5)
  show ?case
  proof (cases "0 \<le> e")
    case False
    with e1 have "e = - 1" by simp
    with I False show ?thesis by (auto simp: evm_loop_done)
  next
    case True
    let ?m = "(0 + e) div 2"
    let ?w = "looked_up BlockTimestampCache (EthGetBlockByNumber ?m) ?m (ts ?m) w"
    let ?td = "\<bar>ts ?m - target\<bar>"
    let ?cb = "if ?td < cd then ?m else cb"
    let ?cd = "if ?td < cd then ?td else cd"
    from True have m: "0 \<le> ?m" "?m \<le> e" by simp_all
    with eN have mN: "?m \<le> N" by simp
    have look: "getBlockTimestamp r ?m w = (Inr (ts ?m), ?w)"
      using A G m(1) mN by (rule getBlockTimestamp_answers)
    have G': "agrees (blockTimestampCache ?w) ts"
      by (simp add: looked_up_block_cache [OF G] agrees_upd [OF G])
    have "ts 0 \<le> ts ?m" using M _ m(1) mN by (rule strictly_increasing_le) simp
    with B have hi: "target < ts ?m" by simp
    have I': "?cb = 0 \<or> (?cb = ?m - 1 + 1 \<and> ?m - 1 + 1 \<le> N \<and> ?cd = distance ts target ?cb)"
    proof (cases "?td < cd")
      case True
      with mN show ?thesis by (simp add: distance_def)
    next
      case ge: False
      have "cb = 0"
      proof (rule ccontr)
        assume "cb \<noteq> 0"
        with I have e1N: "e + 1 \<le> N" and cd: "cd = distance ts target (e + 1)" by auto
        have "ts ?m < ts (e + 1)"
          using M m e1N unfolding strictly_increasing_def by simp
        with hi have "?td < distance ts target (e + 1)" by (simp add: distance_def)
        with ge cd show False by simp
      qed
      with ge show ?thesis by simp
    qed
    have "\<exists>w'. evm_loop r target 0 (?m - 1) ?cb ?cd ?w = (Inr 0, w')"
    proof (rule less.IH [OF _ G' _ _ I' refl])
      show "nat (?m - 1 + 1) < n" using n m True by simp
      show "?m - 1 \<le> N" using mN by simp
      show "- 1 \<le> ?m - 1" using m by simp
    qed
    with hi show ?thesis unfolding evm_loop_step [OF True look, of target cb cd] by simp
  qed
qed

lemma evm_loop_above:
  assumes A: "evm_answers r N ts" and M: "strictly_increasing ts N" and B: "ts N < target"
    and S: "target - ts N < MAX_SAFE_INTEGER"
  shows "agrees (blockTimestampCache w) ts \<Longrightarrow> 0 \<le> s \<Longrightarrow> s \<le> N + 1 \<Longrightarrow>
    (s \<le> N \<and> (cd = MAX_SAFE_INTEGER \<or> (0 \<le> cb \<and> cb < s \<and> cd = distance ts target cb))) \<or>
    (s = N + 1 \<and> cb = N) \<Longrightarrow>
    n = nat (N - s + 1) \<Longrightarrow>
    \<exists>w'. evm_loop r target s N cb cd w = (Inr N, w')"
proof (induction n arbitrary: s cb cd w rule: less_induct)
  case (less n)
  note G = less.prems(1) and s0 = less.prems(2) and sN = less.prems(3) and J = less.prems(4)
    and n = less.prems(5)
  show ?case
  proof (cases "s \<le> N")
    case False
    with J show ?thesis by (auto simp: evm_loop_done)
  next
    case True
    let ?m = "(s + N) div 2"
    let ?w = "looked_up BlockTimestampCache (EthGetBlockByNumber ?m) ?m (ts ?m) w"
    let ?td = "\<bar>ts ?m - target\<bar>"
    let ?cb = "if ?td < cd then ?m else cb"
    let ?cd = "if ?td < cd then ?td else cd"
    from True have m: "s \<le> ?m" "?m \<le> N" by simp_all
    with s0 have m0: "0 \<le> ?m" by simp
    have look: "getBlockTimestamp r ?m w = (Inr (ts ?m), ?w)"
      using A G m0 m(2) by (rule getBlockTimestamp_answers)
    have G': "agrees (blockTimestampCache ?w) ts"
      by (simp add: looked_up_block_cache [OF G] agrees_upd [OF G])
    have "ts ?m \<le> ts N" using M m0 m(2) by (rule strictly_increasing_le) simp
    with B have lo: "ts ?m < target" by simp
    have td: "?td = distance ts target ?m" by (simp add: distance_def)
    from True J have cand: "cd = MAX_SAFE_INTEGER \<or> (0 \<le> cb \<and> cb < s \<and> cd = distance ts target cb)"
      by simp
    have J': "(?m + 1 \<le> N \<and>
          (?cd = MAX_SAFE_INTEGER \<or> (0 \<le> ?cb \<and> ?cb < ?m + 1 \<and> ?cd = distance ts target ?cb))) \<or>
        (?m + 1 = N + 1 \<and> ?cb = N)"
    proof (cases "?m = N")
      case mN: True
      have "?td < cd"
        using cand
      proof
        assume "cd = MAX_SAFE_INTEGER"
        with S B mN show ?thesis by simp
      next
        assume c: "0 \<le> cb \<and> cb < s \<and> cd = distance ts target cb"
        with True have "ts cb < ts N" using M unfolding strictly_increasing_def by simp
        with B c mN show ?thesis by (simp add: distance_def)
      qed
      with mN show ?thesis by simp
    next
      case False
      with m(2) have "?m + 1 \<le> N" by simp
      moreover have "?cd = MAX_SAFE_INTEGER \<or>
          (0 \<le> ?cb \<and> ?cb < ?m + 1 \<and> ?cd = distance ts target ?cb)"
        using cand m m0 td by auto
      ultimately show ?thesis by simp
    qed
    have "\<exists>w'. evm_loop r target (?m + 1) N ?cb ?cd ?w = (Inr N, w')"
    proof (rule less.IH [OF _ G' _ _ J' refl])
      show "nat (N - (?m + 1) + 1) < n" using n m True by simp
      show "0 \<le> ?m + 1" using m0 by simp
      show "?m + 1 \<le> N + 1" using m by simp
    qed
    with lo show ?thesis unfolding evm_loop_step [OF True look, of target cb cd] by simp
  qed
qed

text \<open>
  C9, as stated, fails for a target above the range by \<open>Number.MAX_SAFE_INTEGER\<close> or
  more. With blocks 0 and 1 at the timestamps 1000 and 1001 and the target
  \<open>2^53 + 1000\<close>, the search returns 0, not the latest index 1. (The target is an even
  number below \<open>2^54\<close> and the two differences are \<open>2^53\<close> and \<open>2^53 - 1\<close>: the program
  holds each of them exactly.)
\<close>

theorem getEVMBlockByTimestamp_out_of_range_counterexample:
  "evm_answers (synthetic_rpc 1 (\<lambda>i. 1000 + i)) 1 (\<lambda>i. 1000 + i) \<and>
   strictly_increasing (\<lambda>i. 1000 + i) 1 \<and>
   (\<lambda>i. 1000 + i) (1::int) < (9007199254741992::int) \<and>
   fst (getEVMBlockByTimestamp (synthetic_rpc 1 (\<lambda>i. 1000 + i)) 9007199254741992 initial_world) = Inr 0"
proof -
  let ?ts = "\<lambda>i::int. 1000 + i"
  let ?r = "synthetic_rpc 1 ?ts"
  let ?t = "9007199254741992 :: int"
  let ?w0 = "initial_world\<lparr>trace := [EthBlockNumber]\<rparr>"
  let ?w1 = "looked_up BlockTimestampCache (EthGetBlockByNumber 0) 0 1000 ?w0"
  let ?w2 = "looked_up BlockTimestampCache (EthGetBlockByNumber 1) 1 1001 ?w1"
  have A: "evm_answers ?r 1 ?ts" by (simp add: evm_answers_def synthetic_rpc_def)
  have M: "strictly_increasing ?ts 1" by (simp add: strictly_increasing_def)
  have G0: "agrees (blockTimestampCache ?w0) ?ts" by (simp add: agrees_def initial_world_def)
  have start: "getEVMBlockByTimestamp ?r ?t initial_world = evm_loop ?r ?t 0 1 0 MAX_SAFE_INTEGER ?w0"
    by (simp add: getEVMBlockByTimestamp_def getLatestBlockNumber_answers [OF A] initial_world_def)
  have p1: "evm_loop ?r ?t 0 1 0 MAX_SAFE_INTEGER ?w0 = evm_loop ?r ?t 1 1 0 MAX_SAFE_INTEGER ?w1"
    and G1: "agrees (blockTimestampCache ?w1) ?ts"
    using evm_loop_probe(1) [OF A G0, of 0 1 ?t 0 MAX_SAFE_INTEGER]
      evm_loop_probe(2) [OF A G0, of 0 1]
    by (simp_all add: MAX_SAFE_INTEGER_def)
  have p2: "evm_loop ?r ?t 1 1 0 MAX_SAFE_INTEGER ?w1 = evm_loop ?r ?t 2 1 0 MAX_SAFE_INTEGER ?w2"
    using evm_loop_probe(1) [OF A G1, of 1 1 ?t 0 MAX_SAFE_INTEGER]
    by (simp add: MAX_SAFE_INTEGER_def)
  have p3: "evm_loop ?r ?t 2 1 0 MAX_SAFE_INTEGER ?w2 = (Inr 0, ?w2)"
    by (rule evm_loop_done) simp
  show ?thesis
    using A M by (simp add: start p1 p2 p3)
qed

lemma evm_loop_returns:
  assumes A: "evm_answers r N ts"
  shows "agrees (blockTimestampCache w) ts \<Longrightarrow> 0 \<le> s \<Longrightarrow> e \<le> N \<Longrightarrow> 0 \<le> cb \<Longrightarrow> cb \<le> N \<Longrightarrow>
    n = nat (e - s + 1) \<Longrightarrow>
    \<exists>i w'. evm_loop r target s e cb cd w = (Inr i, w') \<and> 0 \<le> i \<and> i \<le> N \<and>
       length (trace w') \<le> length (trace w) + nat (e - s + 1) \<and>
       routeCache w' = routeCache w"
proof (induction n arbitrary: s e cb cd w rule: less_induct)
  case (less n)
  note G = less.prems(1) and s0 = less.prems(2) and eN = less.prems(3)
    and cb = less.prems(4) less.prems(5) and n = less.prems(6)
  show ?case
  proof (cases "s \<le> e")
    case False
    with cb show ?thesis by (simp add: evm_loop_done)
  next
    case True
    let ?m = "(s + e) div 2"
    let ?w = "looked_up BlockTimestampCache (EthGetBlockByNumber ?m) ?m (ts ?m) w"
    let ?td = "\<bar>ts ?m - target\<bar>"
    let ?cb = "if ?td < cd then ?m else cb"
    let ?cd = "if ?td < cd then ?td else cd"
    from True have m: "s \<le> ?m" "?m \<le> e" by simp_all
    with s0 eN have mN: "0 \<le> ?m" "?m \<le> N" by simp_all
    have look: "getBlockTimestamp r ?m w = (Inr (ts ?m), ?w)"
      using A G mN by (rule getBlockTimestamp_answers)
    have G': "agrees (blockTimestampCache ?w) ts"
      by (simp add: looked_up_block_cache [OF G] agrees_upd [OF G])
    have len: "length (trace ?w) \<le> length (trace w) + 1" by (rule looked_up_length)
    have rc: "routeCache ?w = routeCache w" by (rule looked_up_routeCache)
    have cb': "0 \<le> ?cb" "?cb \<le> N" using cb mN by auto
    note step = evm_loop_step [OF True look, of target cb cd]
    consider (hit) "ts ?m = target" | (lo) "ts ?m < target" | (hi) "target < ts ?m"
      by linarith
    then show ?thesis
    proof cases
      case hit
      with mN len rc True show ?thesis unfolding step by simp
    next
      case lo
      have "\<exists>i w'. evm_loop r target (?m + 1) e ?cb ?cd ?w = (Inr i, w') \<and> 0 \<le> i \<and> i \<le> N \<and>
         length (trace w') \<le> length (trace ?w) + nat (e - (?m + 1) + 1) \<and>
         routeCache w' = routeCache ?w"
      proof (rule less.IH [OF _ G' _ eN cb' refl])
        show "nat (e - (?m + 1) + 1) < n" using n m True by simp
        show "0 \<le> ?m + 1" using mN by simp
      qed
      then obtain i w' where r: "evm_loop r target (?m + 1) e ?cb ?cd ?w = (Inr i, w')"
        and i: "0 \<le> i" "i \<le> N"
        and l: "length (trace w') \<le> length (trace ?w) + nat (e - (?m + 1) + 1)"
        and c: "routeCache w' = routeCache ?w"
        by blast
      have "nat (e - (?m + 1) + 1) + 1 \<le> nat (e - s + 1)" using m by simp
      with l len have "length (trace w') \<le> length (trace w) + nat (e - s + 1)" by linarith
      with lo r i c rc show ?thesis unfolding step by simp
    next
      case hi
      have "\<exists>i w'. evm_loop r target s (?m - 1) ?cb ?cd ?w = (Inr i, w') \<and> 0 \<le> i \<and> i \<le> N \<and>
         length (trace w') \<le> length (trace ?w) + nat (?m - 1 - s + 1) \<and>
         routeCache w' = routeCache ?w"
      proof (rule less.IH [OF _ G' s0 _ cb' refl])
        show "nat (?m - 1 - s + 1) < n" using n m True by simp
        show "?m - 1 \<le> N" using mN by simp
      qed
      then obtain i w' where r: "evm_loop r target s (?m - 1) ?cb ?cd ?w = (Inr i, w')"
        and i: "0 \<le> i" "i \<le> N"
        and l: "length (trace w') \<le> length (trace ?w) + nat (?m - 1 - s + 1)"
        and c: "routeCache w' = routeCache ?w"
        by blast
      have "nat (?m - 1 - s + 1) + 1 \<le> nat (e - s + 1)" using m by simp
      with l len have "length (trace w') \<le> length (trace w) + nat (e - s + 1)" by linarith
      with hi r i c rc show ?thesis unfolding step by simp
    qed
  qed
qed

lemma getEVMBlockByTimestamp_returns:
  assumes "evm_answers r N ts" and "0 \<le> N" and "agrees (blockTimestampCache w) ts"
  shows "\<exists>i w'. getEVMBlockByTimestamp r target w = (Inr i, w') \<and> 0 \<le> i \<and> i \<le> N \<and>
     length (trace w') \<le> length (trace w) + 1 + nat (N + 1) \<and>
     routeCache w' = routeCache w"
proof -
  let ?w0 = "w\<lparr>trace := trace w @ [EthBlockNumber]\<rparr>"
  have latest: "getLatestBlockNumber r w = (Inr N, ?w0)"
    using assms(1) by (rule getLatestBlockNumber_answers)
  have G0: "agrees (blockTimestampCache ?w0) ts" using assms(3) by simp
  have eq: "getEVMBlockByTimestamp r target w = evm_loop r target 0 N 0 MAX_SAFE_INTEGER ?w0"
    by (simp add: getEVMBlockByTimestamp_def latest)
  have "\<exists>i w'. evm_loop r target 0 N 0 MAX_SAFE_INTEGER ?w0 = (Inr i, w') \<and> 0 \<le> i \<and> i \<le> N \<and>
       length (trace w') \<le> length (trace ?w0) + nat (N - 0 + 1) \<and>
       routeCache w' = routeCache ?w0"
    by (rule evm_loop_returns [OF assms(1) G0 _ _ _ _ refl]) (use assms(2) in simp_all)
  then show ?thesis unfolding eq by auto
qed

text \<open>
  C9, amended: let the remote answer from a timestamp function that is strictly
  increasing over \<open>[0, N]\<close>, and let the numbers be ones the program computes with
  exactly: \<open>2 * N\<close>, the timestamps and the target are \<open>exact\<close>, of magnitude at most
  \<open>2^53\<close>. Then for every such target, inside the range of the chain or outside it,
  the search ends with an index of \<open>[0, N]\<close>, not an error, after at most \<open>N + 1\<close>
  requests for a block (every iteration probes an index of a window that the
  iteration before has made strictly shorter). A target below the timestamp of
  index 0 gives index 0, and a target above the timestamp of the latest index \<open>N\<close>, by
  less than \<open>Number.MAX_SAFE_INTEGER\<close>, gives \<open>N\<close>.
\<close>

theorem getEVMBlockByTimestamp_out_of_range:
  assumes "evm_answers r N ts" and "0 \<le> N" and "strictly_increasing ts N"
    and "agrees (blockTimestampCache w) ts"
    and "exact (2 * N)" and "\<forall>j. 0 \<le> j \<and> j \<le> N \<longrightarrow> exact (ts j)" and "exact target"
  shows "(\<exists>i w'. getEVMBlockByTimestamp r target w = (Inr i, w') \<and> 0 \<le> i \<and> i \<le> N \<and>
            length (trace w') \<le> length (trace w) + 1 + nat (N + 1)) \<and>
         (target < ts 0 \<longrightarrow> (\<exists>w'. getEVMBlockByTimestamp r target w = (Inr 0, w'))) \<and>
         (ts N < target \<and> target - ts N < MAX_SAFE_INTEGER \<longrightarrow>
            (\<exists>w'. getEVMBlockByTimestamp r target w = (Inr N, w')))"
proof -
  let ?w0 = "w\<lparr>trace := trace w @ [EthBlockNumber]\<rparr>"
  have latest: "getLatestBlockNumber r w = (Inr N, ?w0)"
    using assms(1) by (rule getLatestBlockNumber_answers)
  have G0: "agrees (blockTimestampCache ?w0) ts" using assms(4) by simp
  have eq: "getEVMBlockByTimestamp r target w = evm_loop r target 0 N 0 MAX_SAFE_INTEGER ?w0"
    by (simp add: getEVMBlockByTimestamp_def latest)
  have returns: "\<exists>i w'. getEVMBlockByTimestamp r target w = (Inr i, w') \<and> 0 \<le> i \<and> i \<le> N \<and>
      length (trace w') \<le> length (trace w) + 1 + nat (N + 1)"
    using getEVMBlockByTimestamp_returns [OF assms(1) assms(2) assms(4), of target] by blast
  have below: "\<exists>w'. evm_loop r target 0 N 0 MAX_SAFE_INTEGER ?w0 = (Inr 0, w')"
    if "target < ts 0"
    by (rule evm_loop_below [OF assms(1) assms(3) that G0 _ _ _ refl]) (use assms(2) in simp_all)
  have above: "\<exists>w'. evm_loop r target 0 N 0 MAX_SAFE_INTEGER ?w0 = (Inr N, w')"
    if "ts N < target" and "target - ts N < MAX_SAFE_INTEGER"
    by (rule evm_loop_above [OF assms(1) assms(3) that G0 _ _ _ refl]) (use assms(2) in simp_all)
  from below above have
    "(target < ts 0 \<longrightarrow> (\<exists>w'. getEVMBlockByTimestamp r target w = (Inr 0, w'))) \<and>
     (ts N < target \<and> target - ts N < MAX_SAFE_INTEGER \<longrightarrow>
        (\<exists>w'. getEVMBlockByTimestamp r target w = (Inr N, w')))"
    unfolding eq by blast
  with returns show ?thesis by blast
qed

theorem getEVMBlockByTimestamp_out_of_range_witness:
  "evm_answers (synthetic_rpc 3 (\<lambda>i. 100 + 10 * i)) 3 (\<lambda>i. 100 + 10 * i) \<and>
   strictly_increasing (\<lambda>i. 100 + 10 * i) 3 \<and>
   agrees (blockTimestampCache initial_world) (\<lambda>i. 100 + 10 * i) \<and>
   exact (2 * 3) \<and> exact 5 \<and> exact 1000 \<and> exact 100 \<and> exact 110 \<and> exact 120 \<and> exact 130 \<and>
   (\<exists>w'. getEVMBlockByTimestamp (synthetic_rpc 3 (\<lambda>i. 100 + 10 * i)) 5 initial_world = (Inr 0, w')) \<and>
   (\<exists>w'. getEVMBlockByTimestamp (synthetic_rpc 3 (\<lambda>i. 100 + 10 * i)) 1000 initial_world = (Inr 3, w') \<and>
      length (trace w') \<le> 5)"
proof -
  let ?ts = "\<lambda>i::int. 100 + 10 * i"
  let ?r = "synthetic_rpc 3 ?ts"
  have A: "evm_answers ?r 3 ?ts" by (simp add: evm_answers_def synthetic_rpc_def)
  have M: "strictly_increasing ?ts 3" by (simp add: strictly_increasing_def)
  have G: "agrees (blockTimestampCache initial_world) ?ts"
    by (simp add: agrees_def initial_world_def)
  have X: "exact (2 * 3)" "exact 5" "exact 1000" "exact 100" "exact 110" "exact 120" "exact 130"
    by (simp_all add: exact_def MAX_SAFE_INTEGER_def)
  have XT: "\<forall>j. 0 \<le> j \<and> j \<le> 3 \<longrightarrow> exact (?ts j)"
    by (auto simp: exact_def MAX_SAFE_INTEGER_def)
  from getEVMBlockByTimestamp_out_of_range [OF A _ M G X(1) XT X(2)]
  have below: "\<exists>w'. getEVMBlockByTimestamp ?r 5 initial_world = (Inr 0, w')" by simp
  from getEVMBlockByTimestamp_out_of_range [OF A _ M G X(1) XT X(3)]
  obtain i w' w'' where r: "getEVMBlockByTimestamp ?r 1000 initial_world = (Inr i, w')"
    and l: "length (trace w') \<le> length (trace initial_world) + 1 + nat (3 + 1)"
    and a: "getEVMBlockByTimestamp ?r 1000 initial_world = (Inr 3, w'')"
    by (auto simp: MAX_SAFE_INTEGER_def)
  from r a have "i = 3" by simp
  with r l have "\<exists>w'. getEVMBlockByTimestamp ?r 1000 initial_world = (Inr 3, w') \<and>
      length (trace w') \<le> 5"
    by (auto simp: initial_world_def)
  with below A M G X show ?thesis by simp
qed

section \<open>The refinement around the seed\<close>






section \<open>The request handler and the names of \<open>Object.prototype\<close>\<close>

text \<open>
  An item that is not the name of a property of \<open>Object.prototype\<close> is an ordinary key:
  the cache holds a non-zero number for it or nothing, and writing it to \<open>results\<close>
  creates or overwrites the entry of that name.
\<close>

lemma route_lookup_ordinary:
  "timestamp \<notin> set prototype_names \<Longrightarrow> route_lookup chain timestamp w = Some v \<Longrightarrow>
   \<exists>b. v = Num b \<and> b \<noteq> 0"
  by (auto simp: route_lookup_def split: option.splits if_splits)

lemma serialize_put:
  "k \<noteq> ''__proto__'' \<or> null_proto obj \<Longrightarrow>
   serialize (put k v obj) = (serialize obj)(k := to_json v)"
  by (auto simp: serialize_def put_def fun_eq_iff)

lemma serialize_empty_object: "serialize empty_object = Map.empty"
  by (simp add: serialize_def empty_object_def fun_eq_iff)

lemma dom_serialize_put:
  "k \<noteq> ''__proto__'' \<Longrightarrow> to_json v \<noteq> None \<Longrightarrow>
   dom (serialize (put k v obj)) = insert k (dom (serialize obj))"
  by (auto simp: serialize_put)

text \<open>
  Over ordinary keys the loop gives the response one entry for every item, whatever
  the lookups do.
\<close>

lemma timestamps_loop_ordinary:
  "set items \<inter> set prototype_names = {} \<Longrightarrow>
   timestamps_loop Number r chain items results w = (results', w') \<Longrightarrow>
   dom (serialize results') = dom (serialize results) \<union> set items"
proof (induction items arbitrary: results w)
  case Nil
  then show ?case by simp
next
  case (Cons t rest)
  from Cons.prems(1) have t: "t \<notin> set prototype_names"
    and rest: "set rest \<inter> set prototype_names = {}"
    by auto
  from t have np: "t \<noteq> ''__proto__''" by (auto simp: prototype_names_def)
  show ?case
  proof (cases "route_lookup chain t w")
    case (Some cached)
    with t obtain b where b: "cached = Num b" by (auto dest: route_lookup_ordinary)
    from Cons.prems(2) Some
    have "timestamps_loop Number r chain rest (put t cached results) w = (results', w')"
      by simp
    from Cons.IH [OF rest this] b np show ?thesis
      by (simp add: dom_serialize_put to_json_def)
  next
    case None
    show ?thesis
    proof (cases "resolve_timestamp Number r chain t w")
      case (Pair res w1)
      show ?thesis
      proof (cases res)
        case (Inl err)
        with Cons.prems(2) None Pair
        have "timestamps_loop Number r chain rest (put t Null results) w1 = (results', w')"
          by simp
        from Cons.IH [OF rest this] np show ?thesis
          by (simp add: dom_serialize_put to_json_def)
      next
        case (Inr blockNumber)
        with Cons.prems(2) None Pair
        have "timestamps_loop Number r chain rest (put t (Num blockNumber) results)
            (route_store chain t blockNumber w1) = (results', w')"
          by simp
        from Cons.IH [OF rest this] np show ?thesis
          by (simp add: dom_serialize_put to_json_def)
      qed
    qed
  qed
qed

text \<open>
  A block number or slot that cannot be resolved ends the request with the text
  response of status 500.
\<close>

lemma handleApiRoute_blockNumber_failure:
  "\<not> truthy (timestampsParam c) \<Longrightarrow> truthy (blockNumberParam c) \<Longrightarrow>
   resolve_blockNumber Number r (chain_of c) (the (blockNumberParam c)) w = (Inl e, w') \<Longrightarrow>
   handleApiRoute Number trim r c w = (TextResponse (''Error: '' @ exn_message e) 500, w')"
  by (simp add: handleApiRoute_def)

text \<open>
  C8 does not hold of every batch request. \<open>results\<close> and \<open>cache[chain]\<close> are plain
  objects used as dictionaries, and an item that is the name of a property of
  \<open>Object.prototype\<close> gets no entry in the response. With the request for the latest
  block number failing, the batch \<open>__proto__\<close> is answered \<open>{}\<close>: the \<open>null\<close> written
  for the failed item sets the prototype of \<open>results\<close> and creates no property (the
  search fails at its first request, before it looks at the target, so what \<open>Number\<close>
  makes of the item plays no part). With
  a remote of blocks 0 to 10 that answers (block \<open>i\<close> at time \<open>100 * i\<close>), the batch
  \<open>260,__proto__,toString\<close> is answered \<open>{"260":3}\<close>: once \<open>cache["evm"]\<close> exists, the
  two other items find the inherited properties there, no lookup is made for them,
  and what is written to \<open>results\<close> is the prototype itself, which creates no
  property, and a function, which the response leaves out.
\<close>

theorem handleApiRoute_prototype_keys:
  "handleApiRoute decimal trim_ascii
     ((synthetic_rpc 10 (\<lambda>i. 100 * i))
        \<lparr>eth_blockNumber := \<lambda>n. Inl (Exn ''TypeError'' ''fetch failed'')\<rparr>)
     \<lparr>timestampsParam = Some ''__proto__'', blockNumberParam = None, chainParam = None\<rparr>
     initial_world =
   (JsonResults Map.empty, initial_world\<lparr>trace := [EthBlockNumber]\<rparr>) \<and>
   fst (handleApiRoute decimal trim_ascii (synthetic_rpc 10 (\<lambda>i. 100 * i))
     \<lparr>timestampsParam = Some ''260,__proto__,toString'', blockNumberParam = None,
        chainParam = None\<rparr>
     initial_world) =
   JsonResults [''260'' \<mapsto> JNumber 3]"
proof
  show "handleApiRoute decimal trim_ascii
     ((synthetic_rpc 10 (\<lambda>i. 100 * i))
        \<lparr>eth_blockNumber := \<lambda>n. Inl (Exn ''TypeError'' ''fetch failed'')\<rparr>)
     \<lparr>timestampsParam = Some ''__proto__'', blockNumberParam = None, chainParam = None\<rparr>
     initial_world =
   (JsonResults Map.empty, initial_world\<lparr>trace := [EthBlockNumber]\<rparr>)"
    by (simp add: handleApiRoute_def chain_of_def truthy_def trim_ascii_def is_space_def
        route_lookup_def resolve_timestamp_def getEVMBlockByTimestamp_def
        getLatestBlockNumber_def invoke_def put_def empty_object_def serialize_def
        initial_world_def fun_eq_iff)
next
  let ?ts = "\<lambda>i::int. 100 * i"
  let ?r = "synthetic_rpc 10 ?ts"
  have A: "evm_answers ?r 10 ?ts" by (simp add: evm_answers_def synthetic_rpc_def)
  have G: "agrees (blockTimestampCache initial_world) ?ts"
    by (simp add: agrees_def initial_world_def)
  have three: "fst (getEVMBlockByTimestamp ?r 260 initial_world) = Inr 3" by code_simp
  from getEVMBlockByTimestamp_returns [OF A _ G, of 260]
  obtain i w1 where res: "getEVMBlockByTimestamp ?r 260 initial_world = (Inr i, w1)"
    and rc: "routeCache w1 = routeCache initial_world"
    by auto
  from res three have i: "i = 3" by simp
  have rc0: "routeCache w1 = Map.empty" using rc by (simp add: initial_world_def)
  have d: "decimal ''260'' = 260" by (simp add: decimal_def)
  have t: "trim_ascii ''260'' = ''260''" "trim_ascii ''__proto__'' = ''__proto__''"
    "trim_ascii ''toString'' = ''toString''"
    by (simp_all add: trim_ascii_def is_space_def)
  let ?w2 = "route_store ''evm'' ''260'' 3 w1"
  have l1: "route_lookup ''evm'' ''260'' initial_world = None"
    by (simp add: route_lookup_def initial_world_def)
  have rs: "resolve_timestamp decimal ?r ''evm'' ''260'' initial_world = (Inr 3, w1)"
    using res i d by (simp add: resolve_timestamp_def)
  have l2: "route_lookup ''evm'' ''__proto__'' ?w2 = Some (Builtin ''__proto__'')"
    using rc0 by (simp add: route_lookup_def route_store_def prototype_names_def)
  have l3: "route_lookup ''evm'' ''toString'' ?w2 = Some (Builtin ''toString'')"
    using rc0 by (simp add: route_lookup_def route_store_def prototype_names_def)
  have ser: "serialize (put ''toString'' (Builtin ''toString'')
      (put ''__proto__'' (Builtin ''__proto__'') (put ''260'' (Num 3) empty_object)))
      = [''260'' \<mapsto> JNumber 3]"
    by (simp add: serialize_def put_def empty_object_def to_json_def fun_eq_iff)
  show "fst (handleApiRoute decimal trim_ascii ?r
     \<lparr>timestampsParam = Some ''260,__proto__,toString'', blockNumberParam = None,
        chainParam = None\<rparr>
     initial_world) =
   JsonResults [''260'' \<mapsto> JNumber 3]"
    by (simp add: handleApiRoute_def chain_of_def truthy_def t l1 rs l2 l3 ser)
qed

end
